theory Spec2Isabelle
  imports Main
begin

section \<open>Python string primitives used by the scripts\<close>

text \<open>
  A Python \<open>str\<close> is modelled as a \<open>string\<close> (a list of characters with code points
  below 256), Python's unbounded \<open>int\<close> as \<open>int\<close>. Indexing out of range raises
  \<open>IndexError\<close>; slicing never raises.
\<close>

datatype error = IndexError

definition isspace :: "char \<Rightarrow> bool" where
  \<comment> \<open>\<open>str.isspace\<close> on one character: the white-space code points below 256.\<close>
  "isspace c =
     (let n = (of_char c :: nat)
      in (9 \<le> n \<and> n \<le> 13) \<or> (28 \<le> n \<and> n \<le> 32) \<or> n = 133 \<or> n = 160)"

definition getitem :: "string \<Rightarrow> int \<Rightarrow> error + char" where
  \<comment> \<open>\<open>s[i]\<close>: a negative index counts from the end.\<close>
  "getitem s i =
     (if 0 \<le> i \<and> i < int (length s) then Inr (s ! nat i)
      else if i < 0 \<and> - int (length s) \<le> i then Inr (s ! nat (i + int (length s)))
      else Inl IndexError)"

definition slice_bound :: "nat \<Rightarrow> int \<Rightarrow> nat" where
  \<comment> \<open>How a slice bound is adjusted to a string of length \<open>n\<close>.\<close>
  "slice_bound n i = (if i < 0 then nat (i + int n) else min (nat i) n)"

definition slice :: "string \<Rightarrow> int \<Rightarrow> int \<Rightarrow> string" where
  \<comment> \<open>\<open>s[lo:hi]\<close>\<close>
  "slice s lo hi =
     (let a = slice_bound (length s) lo; b = slice_bound (length s) hi
      in take (b - a) (drop a s))"

definition strip :: "string \<Rightarrow> string" where
  \<comment> \<open>\<open>s.strip()\<close>\<close>
  "strip s = rev (dropWhile isspace (rev (dropWhile isspace s)))"

definition range_down :: "int \<Rightarrow> int \<Rightarrow> int list" where
  \<comment> \<open>\<open>range(a, b, -1)\<close>: \<open>a, a - 1, ...\<close> down to \<open>b + 1\<close>.\<close>
  "range_down a b = rev [b + 1..a]"

section \<open>chunk_text (document_loader.py)\<close>

text \<open>
  The \<open>for\<close> loop of lines 58 to 61: the first index of the range whose character is one
  of \<open>.!?\<close> or a newline, and is the last character or is followed by white space, moves
  \<open>end\<close> to one past it; otherwise \<open>end\<close> stays.
\<close>

fun snap :: "string \<Rightarrow> int \<Rightarrow> int list \<Rightarrow> error + int" where
  "snap text end [] = Inr end"
| "snap text end (i # rest) =
     (case getitem text i of
        Inl e \<Rightarrow> Inl e
      | Inr c \<Rightarrow>
          if c \<in> set ''.!?\<newline>'' then
            (if int (length text) \<le> i + 1 then Inr (i + 1)
             else case getitem text (i + 1) of
                    Inl e \<Rightarrow> Inl e
                  | Inr d \<Rightarrow> if isspace d then Inr (i + 1) else snap text end rest)
          else snap text end rest)"

definition chunk_end :: "string \<Rightarrow> int \<Rightarrow> int \<Rightarrow> error + int" where
  \<comment> \<open>Lines 53 to 61: the value of \<open>end\<close> when the chunk is cut.\<close>
  "chunk_end text chunk_size start =
     (let end = min (start + chunk_size) (int (length text))
      in if end < int (length text)
         then snap text end (range_down (end - 1) (max (start + chunk_size div 2) start))
         else Inr end)"

text \<open>
  The \<open>while\<close> loop of lines 51 to 67. \<open>None\<close> is a run that never leaves the loop,
  \<open>Some (Inl e)\<close> a raised exception, \<open>Some (Inr chunks)\<close> the returned list.
\<close>

partial_function (option) chunk_loop ::
  "string \<Rightarrow> int \<Rightarrow> int \<Rightarrow> int \<Rightarrow> string list \<Rightarrow> (error + string list) option" where
  "chunk_loop text chunk_size overlap start chunks =
     (if start < int (length text) then
        (case chunk_end text chunk_size start of
           Inl e \<Rightarrow> Some (Inl e)
         | Inr end \<Rightarrow>
             chunk_loop text chunk_size overlap (end - overlap)
               (chunks @ [strip (slice text start end)]))
      else Some (Inr chunks))"

declare chunk_loop.simps [code]

definition chunk_text :: "string \<Rightarrow> int \<Rightarrow> int \<Rightarrow> (error + string list) option" where
  "chunk_text text chunk_size overlap =
     (if int (length text) \<le> chunk_size then Some (Inr [text])
      else chunk_loop text chunk_size overlap 0 [])"

text \<open>
  The windows \<open>(start, end)\<close> of the first \<open>n\<close> iterations of the loop entered at
  \<open>start\<close>, for as long as the loop condition holds and nothing is raised; \<open>window_chunk\<close> is
  the chunk appended for a window (line 64). The source keeps no record of the offsets:
  these two functions name them, so that properties of the offsets can be stated.
\<close>

fun chunk_windows :: "string \<Rightarrow> int \<Rightarrow> int \<Rightarrow> int \<Rightarrow> nat \<Rightarrow> (int \<times> int) list" where
  "chunk_windows text chunk_size overlap start 0 = []"
| "chunk_windows text chunk_size overlap start (Suc n) =
     (if start < int (length text) then
        (case chunk_end text chunk_size start of
           Inl e \<Rightarrow> []
         | Inr end \<Rightarrow> (start, end) # chunk_windows text chunk_size overlap (end - overlap) n)
      else [])"

definition window_chunk :: "string \<Rightarrow> int \<times> int \<Rightarrow> string" where
  "window_chunk text w = strip (slice text (fst w) (snd w))"



section \<open>chunk_text (load_documents.py)\<close>

text \<open>The second copy of the chunker, lines 59 to 99 of load_documents.py, translated on its own.\<close>

fun ld_snap :: "string \<Rightarrow> int \<Rightarrow> int list \<Rightarrow> error + int" where
  "ld_snap text end [] = Inr end"
| "ld_snap text end (i # rest) =
     (case getitem text i of
        Inl e \<Rightarrow> Inl e
      | Inr c \<Rightarrow>
          if c \<in> set ''.!?\<newline>'' then
            (if int (length text) \<le> i + 1 then Inr (i + 1)
             else case getitem text (i + 1) of
                    Inl e \<Rightarrow> Inl e
                  | Inr d \<Rightarrow> if isspace d then Inr (i + 1) else ld_snap text end rest)
          else ld_snap text end rest)"

definition ld_chunk_end :: "string \<Rightarrow> int \<Rightarrow> int \<Rightarrow> error + int" where
  "ld_chunk_end text chunk_size start =
     (let end = min (start + chunk_size) (int (length text))
      in if end < int (length text)
         then ld_snap text end (range_down (end - 1) (max (start + chunk_size div 2) start))
         else Inr end)"

partial_function (option) ld_chunk_loop ::
  "string \<Rightarrow> int \<Rightarrow> int \<Rightarrow> int \<Rightarrow> string list \<Rightarrow> (error + string list) option" where
  "ld_chunk_loop text chunk_size overlap start chunks =
     (if start < int (length text) then
        (case ld_chunk_end text chunk_size start of
           Inl e \<Rightarrow> Some (Inl e)
         | Inr end \<Rightarrow>
             ld_chunk_loop text chunk_size overlap (end - overlap)
               (chunks @ [strip (slice text start end)]))
      else Some (Inr chunks))"

declare ld_chunk_loop.simps [code]

definition ld_chunk_text :: "string \<Rightarrow> int \<Rightarrow> int \<Rightarrow> (error + string list) option" where
  "ld_chunk_text text chunk_size overlap =
     (if int (length text) \<le> chunk_size then Some (Inr [text])
      else ld_chunk_loop text chunk_size overlap 0 [])"

section \<open>retrieve_for_llm_context (retriever.py)\<close>

text \<open>
  A retrieved document is the dictionary built by \<open>retrieve_documents\<close>. The loop reads
  the keys \<open>text\<close>, \<open>id\<close> and \<open>payload\<close> (and \<open>source\<close> inside the payload); each may be
  absent. The values are held as the strings that the f-string of line 210 renders them
  to. The score is not read by the loop and is left out.
\<close>

record doc =
  doc_id :: "string option"
  doc_payload :: "(string \<rightharpoonup> string) option"
  doc_text :: "string option"

definition doc_source :: "doc \<Rightarrow> string" where
  \<comment> \<open>\<open>doc.get("payload", {}).get("source", "Unknown source")\<close>\<close>
  "doc_source doc =
     (case doc_payload doc of
        None \<Rightarrow> ''Unknown source''
      | Some payload \<Rightarrow>
          (case payload ''source'' of None \<Rightarrow> ''Unknown source'' | Some s \<Rightarrow> s))"

definition doc_context :: "doc \<Rightarrow> string \<Rightarrow> string" where
  \<comment> \<open>Lines 206 to 210: the formatted entry of a document whose text is \<open>text\<close>.\<close>
  "doc_context doc text =
     ''Document ID: '' @ (case doc_id doc of None \<Rightarrow> ''Unknown ID'' | Some i \<Rightarrow> i)
       @ ''\<newline>Source: '' @ doc_source doc
       @ ''\<newline>Content: '' @ text @ ''\<newline>\<newline>''"

text \<open>
  The \<open>for\<close> loop of lines 203 to 221 with its state \<open>context\<close>, \<open>used_chars\<close>; leaving
  the recursion is the \<open>break\<close>.
\<close>

fun context_loop :: "int \<Rightarrow> doc list \<Rightarrow> string list \<Rightarrow> int \<Rightarrow> string list" where
  "context_loop token_budget [] context used_chars = context"
| "context_loop token_budget (doc # docs) context used_chars =
     (case doc_text doc of
        None \<Rightarrow> context_loop token_budget docs context used_chars
      | Some text \<Rightarrow>
          (let entry = doc_context doc text in
           if used_chars + int (length entry) \<le> token_budget
           then context_loop token_budget docs (context @ [entry])
                  (used_chars + int (length entry))
           else (let remaining_chars = token_budget - used_chars in
                 if remaining_chars > 100
                 then context @ [slice entry 0 (remaining_chars - 3) @ ''...'']
                 else context)))"

definition context_entries :: "doc list \<Rightarrow> int \<Rightarrow> string list" where
  \<comment> \<open>The list \<open>context\<close> when the loop is left; \<open>docs\<close> is what \<open>retrieve_documents\<close> returned.\<close>
  "context_entries docs max_tokens = context_loop (max_tokens * 4) docs [] 0"

definition retrieve_for_llm_context :: "doc list \<Rightarrow> int \<Rightarrow> string" where
  "retrieve_for_llm_context docs max_tokens = concat (context_entries docs max_tokens)"

fun entries :: "doc list \<Rightarrow> string list" where
  \<comment> \<open>The formatted entries of the documents that have a text, in the order given.\<close>
  "entries [] = []"
| "entries (doc # docs) =
     (case doc_text doc of
        None \<Rightarrow> entries docs
      | Some text \<Rightarrow> doc_context doc text # entries docs)"

definition total_chars :: "string list \<Rightarrow> int" where
  "total_chars es = (\<Sum>e\<leftarrow>es. int (length e))"

text \<open>
  Two functions that describe the list the loop builds: \<open>fit room es\<close> counts the leading
  entries of \<open>es\<close> that go into \<open>room\<close> characters one after the other, and
  \<open>truncated room es\<close> is the shortened copy of the first entry that does not, when more
  than 100 characters are left for it (lines 217 to 220).
\<close>

fun fit :: "int \<Rightarrow> string list \<Rightarrow> nat" where
  "fit room [] = 0"
| "fit room (e # es) =
     (if int (length e) \<le> room then Suc (fit (room - int (length e)) es) else 0)"

definition truncated :: "int \<Rightarrow> string list \<Rightarrow> string list" where
  "truncated room es =
     (let k = fit room es; remaining = room - total_chars (take k es) in
      if k < length es \<and> remaining > 100
      then [slice (es ! k) 0 (remaining - 3) @ ''...'']
      else [])"

section \<open>Facts about one iteration of the chunking loop\<close>

lemmas py_eval =
  chunk_end_def range_down_def slice_def slice_bound_def strip_def isspace_def getitem_def

lemma snap_le: "snap text e idxs = Inr e' \<Longrightarrow> \<forall>i\<in>set idxs. i < e \<Longrightarrow> e' \<le> e"
  by (induction idxs) (auto split: sum.splits if_splits)

lemma snap_gt: "snap text e idxs = Inr e' \<Longrightarrow> \<forall>i\<in>set idxs. lo < i \<Longrightarrow> e' = e \<or> lo + 1 < e'"
  by (induction idxs) (auto split: sum.splits if_splits)

lemma set_range_down: "set (range_down a b) = {i. b < i \<and> i \<le> a}"
  by (auto simp: range_down_def)

lemma chunk_end_le_len: "chunk_end text cs start = Inr e \<Longrightarrow> e \<le> int (length text)"
  by (auto simp: chunk_end_def Let_def set_range_down split: if_splits dest!: snap_le)

lemma chunk_end_le: "chunk_end text cs start = Inr e \<Longrightarrow> e \<le> start + cs"
  by (auto simp: chunk_end_def Let_def set_range_down split: if_splits dest!: snap_le)

lemma chunk_end_gt: "chunk_end text cs start = Inr e \<Longrightarrow> 0 < cs \<Longrightarrow> start < int (length text) \<Longrightarrow> start < e"
  apply (auto simp: chunk_end_def Let_def set_range_down split: if_splits)
  apply (drule snap_gt[where lo = "max (start + cs div 2) start"])
  apply (auto simp: set_range_down)
  done

section \<open>Reasoning about runs of the loop that return\<close>

text \<open>
  A property that holds when the loop is left or raises, and is carried backwards over
  one iteration, holds of every result of the loop.
\<close>

lemma chunk_loop_cases:
  assumes ret: "chunk_loop t c v s a = Some y"
    and leave: "\<And>s a. \<not> s < int (length t) \<Longrightarrow> P s a (Inr a)"
    and raise: "\<And>s a e. s < int (length t) \<Longrightarrow> chunk_end t c s = Inl e \<Longrightarrow> P s a (Inl e)"
    and again: "\<And>s a e y. s < int (length t) \<Longrightarrow> chunk_end t c s = Inr e \<Longrightarrow>
                  P (e - v) (a @ [strip (slice t s e)]) y \<Longrightarrow> P s a y"
  shows "P s a y"
proof -
  have "t = t \<and> c = c \<and> v = v \<longrightarrow> P s a y"
  proof (rule chunk_loop.raw_induct
      [where P = "\<lambda>t' c' v' s a y. t' = t \<and> c' = c \<and> v' = v \<longrightarrow> P s a y", OF _ ret])
    fix f t' c' v' s a y
    assume IH: "\<And>t' c' v' s a y. f t' c' v' s a = Some y \<Longrightarrow>
                  t' = t \<and> c' = c \<and> v' = v \<longrightarrow> P s a y"
      and body: "(if s < int (length t') then
                   (case chunk_end t' c' s of Inl e \<Rightarrow> Some (Inl e)
                    | Inr end \<Rightarrow> f t' c' v' (end - v') (a @ [strip (slice t' s end)]))
                  else Some (Inr a)) = Some y"
    show "t' = t \<and> c' = c \<and> v' = v \<longrightarrow> P s a y"
    proof
      assume eq: "t' = t \<and> c' = c \<and> v' = v"
      show "P s a y"
      proof (cases "s < int (length t)")
        case False
        with body eq leave[OF False, of a] show ?thesis by simp
      next
        case True
        show ?thesis
        proof (cases "chunk_end t c s")
          case (Inl e)
          with body eq True raise[OF True Inl, of a] show ?thesis by simp
        next
          case (Inr e)
          with body eq True have "f t c v (e - v) (a @ [strip (slice t s e)]) = Some y"
            by simp
          from IH[OF this] have "P (e - v) (a @ [strip (slice t s e)]) y" by simp
          from again[OF True Inr this] show ?thesis .
        qed
      qed
    qed
  qed
  then show ?thesis by simp
qed

text \<open>
  When an iteration ends where it began, the loop never leaves: \<open>start\<close> has the same
  value at every later test of the condition.
\<close>

lemma chunk_loop_stuck:
  assumes "start < int (length text)" and "chunk_end text cs start = Inr e" and "e - ov = start"
  shows "chunk_loop text cs ov start acc = None"
proof (cases "chunk_loop text cs ov start acc")
  case None
  then show ?thesis .
next
  case (Some y)
  have "\<not> (text = text \<and> cs = cs \<and> ov = ov \<and> start = start)"
  proof (rule chunk_loop.raw_induct
      [where P = "\<lambda>t c v s a y. \<not> (t = text \<and> c = cs \<and> v = ov \<and> s = start)", OF _ Some])
    fix f t c v s a y
    assume IH: "\<And>t c v s a y. f t c v s a = Some y \<Longrightarrow>
                  \<not> (t = text \<and> c = cs \<and> v = ov \<and> s = start)"
      and body: "(if s < int (length t) then
                   (case chunk_end t c s of Inl e \<Rightarrow> Some (Inl e)
                    | Inr end \<Rightarrow> f t c v (end - v) (a @ [strip (slice t s end)]))
                  else Some (Inr a)) = Some y"
    show "\<not> (t = text \<and> c = cs \<and> v = ov \<and> s = start)"
    proof
      assume eq: "t = text \<and> c = cs \<and> v = ov \<and> s = start"
      with body assms have "f text cs ov start (a @ [strip (slice text start e)]) = Some y"
        by simp
      from IH[OF this] show False by simp
    qed
  qed
  then show ?thesis by simp
qed

text \<open>
  With an overlap of at least one character, \<open>start = end - overlap\<close> stays below
  \<open>len(text)\<close>, because \<open>end\<close> never exceeds it: the condition of the loop holds
  forever, and the only way out is an exception.
\<close>

lemma chunk_loop_no_return:
  assumes "chunk_loop t c v s a = Some y" and "1 \<le> v" and "s < int (length t)"
  shows "\<exists>e. y = Inl e"
proof -
  have "s < int (length t) \<longrightarrow> (\<exists>e. y = Inl e)"
  proof (rule chunk_loop_cases[OF assms(1), where P = "\<lambda>s a y. s < int (length t) \<longrightarrow> (\<exists>e. y = Inl e)"])
    fix s a e y
    assume "s < int (length t)" and e: "chunk_end t c s = Inr e"
      and IH: "e - v < int (length t) \<longrightarrow> (\<exists>e. y = Inl e)"
    from chunk_end_le_len[OF e] assms(2) have "e - v < int (length t)" by simp
    with IH show "s < int (length t) \<longrightarrow> (\<exists>e. y = Inl e)" by simp
  qed simp_all
  with assms(3) show ?thesis by simp
qed

lemma chunk_text_overlap_never_returns:
  assumes "int (length t) > c" and "t \<noteq> []" and "1 \<le> v"
  shows "chunk_text t c v \<noteq> Some (Inr chunks)"
proof
  assume "chunk_text t c v = Some (Inr chunks)"
  with assms(1) have "chunk_loop t c v 0 [] = Some (Inr chunks)"
    by (simp add: chunk_text_def)
  from chunk_loop_no_return[OF this assms(3)] assms(2) show False
    by simp
qed

section \<open>Termination of chunk_text\<close>

text \<open>
  C1. The claim is that chunk_text returns for every text whenever
  \<open>0 \<le> overlap < chunk_size\<close>, because \<open>start\<close> grows in every iteration. The code does
  not: on \<open>chunk_text("abc", 2, 1)\<close> the third iteration starts at offset 2, cuts
  \<open>text[2:3]\<close> and sets \<open>start = 3 - 1 = 2\<close> again, so the call never returns.
\<close>

theorem chunk_text_never_leaves: "chunk_text ''abc'' 2 1 = None"
proof -
  have "chunk_text ''abc'' 2 1 = chunk_loop ''abc'' 2 1 2 [''ab'', ''bc'']"
    apply (simp add: chunk_text_def)
    apply (subst chunk_loop.simps, simp add: py_eval)
    apply (subst chunk_loop.simps, simp add: py_eval)
    done
  also have "\<dots> = None"
    by (rule chunk_loop_stuck[where e = 3]) (simp_all add: py_eval)
  finally show ?thesis .
qed

section \<open>Arguments that the specification calls invalid\<close>

text \<open>
  C2, as stated: chunk_text raises InvalidArgument when \<open>overlap \<ge> chunk_size\<close>. It does
  not: \<open>chunk_text("hi", 5, 7)\<close> returns \<open>["hi"]\<close>.
\<close>

theorem chunk_text_overlap_not_rejected: "chunk_text ''hi'' 5 7 = Some (Inr [''hi''])"
  by (simp add: chunk_text_def)

text \<open>
  C2, amended: chunk_text does not look at \<open>overlap\<close> before the loop and rejects
  nothing; with \<open>overlap \<ge> chunk_size\<close> and a text of at most \<open>chunk_size\<close> characters it
  returns the text as the only chunk.
\<close>

theorem chunk_text_overlap_unchecked:
  assumes "chunk_size \<le> overlap" and "int (length text) \<le> chunk_size"
  shows "chunk_text text chunk_size overlap = Some (Inr [text])"
  using assms(2) by (simp add: chunk_text_def)

theorem chunk_text_overlap_unchecked_witness:
  "(4::int) \<le> 9 \<and> int (length ''text'') \<le> 4 \<and> chunk_text ''text'' 4 9 = Some (Inr [''text''])"
  using chunk_text_overlap_unchecked[of 4 9 "''text''"] by simp

section \<open>Texts that fit into one chunk\<close>

text \<open>
  C5. A text of at most \<open>chunk_size\<close> characters, the empty text included, comes back
  unchanged as the only chunk, whatever the overlap is.
\<close>

theorem chunk_text_short:
  "int (length text) \<le> chunk_size \<Longrightarrow> chunk_text text chunk_size overlap = Some (Inr [text])"
  by (simp add: chunk_text_def)

theorem chunk_text_short_witness:
  "int (length '''') \<le> 10 \<and> chunk_text '''' 10 2 = Some (Inr [''''])"
  using chunk_text_short[of "''''" 10 2] by simp

section \<open>The two copies of chunk_text\<close>

lemma ld_snap_eq: "ld_snap t e idxs = snap t e idxs"
  by (induction idxs) (simp_all split: sum.splits)

lemma ld_chunk_end_eq: "ld_chunk_end t c s = chunk_end t c s"
  by (simp add: ld_chunk_end_def chunk_end_def ld_snap_eq Let_def)

lemma chunk_loop_imp_ld: "chunk_loop t c v s a = Some y \<Longrightarrow> ld_chunk_loop t c v s a = Some y"
proof (rule chunk_loop_cases[where P = "\<lambda>s a y. ld_chunk_loop t c v s a = Some y"])
  fix s a assume "\<not> s < int (length t)"
  then show "ld_chunk_loop t c v s a = Some (Inr a)"
    by (subst ld_chunk_loop.simps) simp
next
  fix s a e assume "s < int (length t)" "chunk_end t c s = Inl e"
  then show "ld_chunk_loop t c v s a = Some (Inl e)"
    by (subst ld_chunk_loop.simps) (simp add: ld_chunk_end_eq)
next
  fix s a e y
  assume "s < int (length t)" "chunk_end t c s = Inr e"
    "ld_chunk_loop t c v (e - v) (a @ [strip (slice t s e)]) = Some y"
  then show "ld_chunk_loop t c v s a = Some y"
    by (subst ld_chunk_loop.simps) (simp add: ld_chunk_end_eq)
qed

lemma ld_imp_chunk_loop:
  assumes "ld_chunk_loop t c v s a = Some y"
  shows "chunk_loop t c v s a = Some y"
proof (rule ld_chunk_loop.raw_induct
    [where P = "\<lambda>t c v s a y. chunk_loop t c v s a = Some y", OF _ assms])
  fix f t c v s a y
  assume IH: "\<And>t c v s a y. f t c v s a = Some y \<Longrightarrow> chunk_loop t c v s a = Some y"
    and body: "(if s < int (length t) then
                 (case ld_chunk_end t c s of Inl e \<Rightarrow> Some (Inl e)
                  | Inr end \<Rightarrow> f t c v (end - v) (a @ [strip (slice t s end)]))
                else Some (Inr a)) = Some y"
  show "chunk_loop t c v s a = Some y"
  proof (cases "s < int (length t)")
    case False
    with body show ?thesis by (subst chunk_loop.simps) simp
  next
    case True
    show ?thesis
    proof (cases "chunk_end t c s")
      case (Inl e)
      with body True show ?thesis
        by (subst chunk_loop.simps) (simp add: ld_chunk_end_eq)
    next
      case (Inr e)
      with body True have "f t c v (e - v) (a @ [strip (slice t s e)]) = Some y"
        by (simp add: ld_chunk_end_eq)
      from IH[OF this] Inr True show ?thesis
        by (subst chunk_loop.simps) simp
    qed
  qed
qed

lemma ld_chunk_loop_eq: "ld_chunk_loop t c v s a = chunk_loop t c v s a"
proof (cases "chunk_loop t c v s a")
  case (Some y)
  then show ?thesis by (simp add: chunk_loop_imp_ld)
next
  case None
  show ?thesis
  proof (cases "ld_chunk_loop t c v s a")
    case None
    with \<open>chunk_loop t c v s a = None\<close> show ?thesis by simp
  next
    case (Some y)
    from ld_imp_chunk_loop[OF this] None show ?thesis by simp
  qed
qed

text \<open>
  C10. The two copies of the chunker, chunk_text of document_loader.py and chunk_text of
  load_documents.py, give the same outcome on every text, chunk size and overlap: the same
  list of chunks, the same exception, or both never return.
\<close>

theorem chunk_text_copies_agree: "ld_chunk_text text chunk_size overlap = chunk_text text chunk_size overlap"
  by (simp add: ld_chunk_text_def chunk_text_def ld_chunk_loop_eq)

section \<open>The size of a chunk\<close>

lemma strip_length: "length (strip s) \<le> length s"
proof -
  have "length (strip s) \<le> length (dropWhile isspace s)"
    unfolding strip_def using length_dropWhile_le[of isspace "rev (dropWhile isspace s)"] by simp
  also have "\<dots> \<le> length s" by (rule length_dropWhile_le)
  finally show ?thesis .
qed

lemma slice_length:
  assumes "s < e \<or> 0 \<le> e" and "e \<le> s + c" and "0 < c"
  shows "int (length (slice t s e)) \<le> c"
  using assms by (auto simp: slice_def slice_bound_def Let_def)

lemma chunk_end_window:
  assumes "chunk_end t c s = Inr e" and "0 < c"
  shows "s < e \<or> 0 \<le> e"
proof (cases "min (s + c) (int (length t)) < int (length t)")
  case False
  with assms show ?thesis by (simp add: chunk_end_def Let_def)
next
  case True
  with assms(1) have sn: "snap t (s + c) (range_down (s + c - 1) (max (s + c div 2) s)) = Inr e"
    by (simp add: chunk_end_def Let_def min_def split: if_splits)
  from snap_gt[OF sn, of "max (s + c div 2) s"] assms(2) show ?thesis
    by (auto simp: set_range_down)
qed

lemma window_chunk_length:
  assumes "chunk_end t c s = Inr e" and "0 < c"
  shows "int (length (window_chunk t (s, e))) \<le> c"
proof -
  have "int (length (slice t s e)) \<le> c"
    using slice_length[OF chunk_end_window[OF assms] chunk_end_le[OF assms(1)] assms(2)] .
  moreover have "length (window_chunk t (s, e)) \<le> length (slice t s e)"
    by (simp add: window_chunk_def strip_length)
  ultimately show ?thesis by linarith
qed

lemma chunk_loop_lengths:
  assumes ret: "chunk_loop t c v s a = Some (Inr r)" and "0 < c"
    and "\<forall>x\<in>set a. int (length x) \<le> c"
  shows "\<forall>x\<in>set r. int (length x) \<le> c"
proof -
  let ?P = "\<lambda>(s::int) (a::string list) (y::error + string list). \<forall>r. y = Inr r \<longrightarrow> (\<forall>x\<in>set a. int (length x) \<le> c) \<longrightarrow>
               (\<forall>x\<in>set r. int (length x) \<le> c)"
  have "?P s a (Inr r)"
  proof (rule chunk_loop_cases[OF ret, where P = ?P])
    fix s a e y
    assume e: "chunk_end t c s = Inr e" and IH: "?P (e - v) (a @ [strip (slice t s e)]) y"
    from window_chunk_length[OF e \<open>0 < c\<close>] have "int (length (strip (slice t s e))) \<le> c"
      by (simp add: window_chunk_def)
    with IH show "?P s a y" by simp
  qed simp_all
  with assms(3) show ?thesis by simp
qed

text \<open>
  C6. With \<open>chunk_size > 0\<close>, every chunk of a list that chunk_text returns has at most
  \<open>chunk_size\<close> characters; and so has the chunk cut in any single iteration of the loop,
  whatever \<open>start\<close> it begins at (also in the runs that never return).
\<close>

theorem chunk_text_chunk_size:
  "0 < chunk_size \<Longrightarrow>
   (chunk_text text chunk_size overlap = Some (Inr chunks) \<longrightarrow>
      (\<forall>c\<in>set chunks. int (length c) \<le> chunk_size)) \<and>
   (chunk_end text chunk_size start = Inr e \<longrightarrow>
      int (length (window_chunk text (start, e))) \<le> chunk_size)"
proof (intro conjI impI)
  assume c: "0 < chunk_size" and ret: "chunk_text text chunk_size overlap = Some (Inr chunks)"
  show "\<forall>c\<in>set chunks. int (length c) \<le> chunk_size"
  proof (cases "int (length text) \<le> chunk_size")
    case True
    with ret show ?thesis by (auto simp: chunk_text_def)
  next
    case False
    with ret have "chunk_loop text chunk_size overlap 0 [] = Some (Inr chunks)"
      by (simp add: chunk_text_def)
    from chunk_loop_lengths[OF this c] show ?thesis by simp
  qed
next
  assume "0 < chunk_size" and "chunk_end text chunk_size start = Inr e"
  then show "int (length (window_chunk text (start, e))) \<le> chunk_size"
    by (rule window_chunk_length[rotated])
qed

theorem chunk_text_chunk_size_witness:
  "(0::int) < 3 \<and> chunk_text ''abcdef'' 3 0 = Some (Inr [''abc'', ''def''])
   \<and> int (length ''abc'') \<le> 3 \<and> int (length ''def'') \<le> 3
   \<and> chunk_end ''abcdef'' 3 3 = Inr 6 \<and> int (length (window_chunk ''abcdef'' (3, 6))) \<le> 3"
proof -
  have r: "chunk_text ''abcdef'' 3 0 = Some (Inr [''abc'', ''def''])"
    by (simp add: chunk_text_def chunk_loop.simps py_eval)
  have e: "chunk_end ''abcdef'' 3 3 = Inr 6"
    by (simp add: py_eval)
  from chunk_text_chunk_size[of 3 "''abcdef''" 0 "[''abc'', ''def'']" 3 6] r e
  show ?thesis by simp
qed

section \<open>The windows of consecutive chunks\<close>

lemma chunk_windows_length: "length (chunk_windows t c v s n) \<le> n"
  by (induction n arbitrary: s) (auto split: sum.splits)


lemma chunk_loop_windows:
  assumes ret: "chunk_loop t c v s a = Some (Inr r)"
  shows "\<exists>n. length (chunk_windows t c v s n) = n \<and> r = a @ map (window_chunk t) (chunk_windows t c v s n)"
proof -
  let ?P = "\<lambda>(s::int) (a::string list) (y::error + string list). \<forall>r. y = Inr r \<longrightarrow>
     (\<exists>n. length (chunk_windows t c v s n) = n \<and> r = a @ map (window_chunk t) (chunk_windows t c v s n))"
  have "?P s a (Inr r)"
  proof (rule chunk_loop_cases[OF ret, where P = ?P])
    fix s a assume "\<not> s < int (length t)"
    have "length (chunk_windows t c v s 0) = 0 \<and> a = a @ map (window_chunk t) (chunk_windows t c v s 0)"
      by simp
    then show "?P s a (Inr a)" by blast
  next
    fix s a e y
    assume s: "s < int (length t)" and e: "chunk_end t c s = Inr e"
      and IH: "?P (e - v) (a @ [strip (slice t s e)]) y"
    show "?P s a y"
    proof (intro allI impI)
      fix r assume "y = Inr r"
      with IH obtain n where n: "length (chunk_windows t c v (e - v) n) = n"
        and r: "r = (a @ [strip (slice t s e)]) @ map (window_chunk t) (chunk_windows t c v (e - v) n)"
        by blast
      from s e n r have "length (chunk_windows t c v s (Suc n)) = Suc n \<and>
          r = a @ map (window_chunk t) (chunk_windows t c v s (Suc n))"
        by (simp add: window_chunk_def)
      then show "\<exists>n. length (chunk_windows t c v s n) = n \<and> r = a @ map (window_chunk t) (chunk_windows t c v s n)"
        by blast
    qed
  qed simp
  then show ?thesis by simp
qed






text \<open>
  The offset where a chunk begins can lie after the start of its window, because
  \<open>strip()\<close> removes leading white space: with overlap 0 the second chunk of the text
  below is cut from the window \<open>(12, 27)\<close> and begins at offset 13.
\<close>

lemma chunk_begins_after_window_start:
  "chunk_text ''Hello world. This is a test.'' 15 0
     = Some (Inr [''Hello world.'', ''This is a test'', ''.''])
   \<and> chunk_windows ''Hello world. This is a test.'' 15 0 0 3 = [(0, 12), (12, 27), (27, 28)]
   \<and> window_chunk ''Hello world. This is a test.'' (12, 27)
       = slice ''Hello world. This is a test.'' 13 27"
  by (simp add: chunk_text_def chunk_loop.simps eval_nat_numeral py_eval window_chunk_def)



section \<open>Scenario 1 of the specification\<close>

text \<open>
  C4, as stated: \<open>chunk_text("Hello world. This is a test.", 15, 3)\<close> returns
  \<open>["Hello world.", "This is a test."]\<close>. It does not return this list.
\<close>

theorem scenario_1_not_returned:
  "chunk_text ''Hello world. This is a test.'' 15 3 \<noteq> Some (Inr [''Hello world.'', ''This is a test.''])"
  by (rule chunk_text_overlap_never_returns) simp_all

text \<open>
  C4, amended: on this input the first window of the loop is snapped to the sentence
  boundary after \<open>Hello world.\<close> and gives the chunk \<open>Hello world.\<close>; each next window
  starts 3 characters before the end of the one before, so the second and third chunks
  are \<open>ld. This is a t\<close> and \<open>a test.\<close>.
\<close>

theorem scenario_1_windows:
  "chunk_windows ''Hello world. This is a test.'' 15 3 0 3 = [(0, 12), (9, 24), (21, 28)]
   \<and> map (window_chunk ''Hello world. This is a test.'') [(0, 12), (9, 24), (21, 28)]
       = [''Hello world.'', ''ld. This is a t'', ''a test.'']"
  by (simp add: eval_nat_numeral py_eval window_chunk_def)

section \<open>The list that the packer builds\<close>

lemma doc_context_length: "0 < length (doc_context d t)"
  by (simp add: doc_context_def)

lemma total_simps [simp]: "total_chars [] = 0" "total_chars (e # es) = int (length e) + total_chars es"
  "total_chars (xs @ ys) = total_chars xs + total_chars ys"
  by (simp_all add: total_chars_def)

lemma total_nonneg: "0 \<le> total_chars es"
  by (induction es) simp_all

lemma length_concat_total: "int (length (concat es)) = total_chars es"
  by (induction es) simp_all

lemma fit_le: "fit room es \<le> length es"
  by (induction es arbitrary: room) simp_all

lemma fit_total: "0 \<le> room \<Longrightarrow> total_chars (take (fit room es) es) \<le> room"
proof (induction es arbitrary: room)
  case Nil
  then show ?case by simp
next
  case (Cons e es)
  show ?case
  proof (cases "int (length e) \<le> room")
    case True
    with Cons.IH[of "room - int (length e)"] show ?thesis by simp
  next
    case False
    with Cons.prems show ?thesis by simp
  qed
qed

lemma fit_stop: "fit room es < length es \<Longrightarrow> room - total_chars (take (fit room es) es) < int (length (es ! fit room es))"
proof (induction es arbitrary: room)
  case Nil
  then show ?case by simp
next
  case (Cons e es)
  show ?case
  proof (cases "int (length e) \<le> room")
    case True
    with Cons.prems Cons.IH[of "room - int (length e)"] show ?thesis by simp
  next
    case False
    then show ?thesis by simp
  qed
qed

lemma fit_greatest: "k \<le> length es \<Longrightarrow> total_chars (take k es) \<le> room \<Longrightarrow> k \<le> fit room es"
proof (induction es arbitrary: room k)
  case Nil
  then show ?case by simp
next
  case (Cons e es)
  show ?case
  proof (cases k)
    case 0
    then show ?thesis by simp
  next
    case (Suc j)
    with Cons.prems have "j \<le> length es" and t: "int (length e) + total_chars (take j es) \<le> room"
      by simp_all
    moreover from t total_nonneg[of "take j es"] have "int (length e) \<le> room" by linarith
    ultimately show ?thesis using Cons.IH[of j "room - int (length e)"] Suc by simp
  qed
qed

lemma context_loop_shape:
  "context_loop b docs ctx used =
     ctx @ take (fit (b - used) (entries docs)) (entries docs) @ truncated (b - used) (entries docs)"
proof (induction docs arbitrary: ctx used)
  case Nil
  then show ?case by (simp add: truncated_def)
next
  case (Cons d docs)
  show ?case
  proof (cases "doc_text d")
    case None
    with Cons.IH show ?thesis by simp
  next
    case (Some t)
    show ?thesis
    proof (cases "used + int (length (doc_context d t)) \<le> b")
      case True
      then have "int (length (doc_context d t)) \<le> b - used" by simp
      with Some True Cons.IH[of "ctx @ [doc_context d t]" "used + int (length (doc_context d t))"]
      show ?thesis
        by (simp add: truncated_def Let_def algebra_simps)
    next
      case False
      then have "\<not> int (length (doc_context d t)) \<le> b - used" by simp
      with Some False show ?thesis
        by (simp add: truncated_def Let_def)
    qed
  qed
qed

lemma truncated_cases:
  "truncated room es = [] \<or>
   (fit room es < length es \<and> 100 < room - total_chars (take (fit room es) es) \<and>
    truncated room es =
      [slice (es ! fit room es) 0 (room - total_chars (take (fit room es) es) - 3) @ ''...''])"
  by (simp add: truncated_def Let_def)

lemma slice_prefix: "0 \<le> n \<Longrightarrow> slice s 0 n = take (nat n) s"
  by (cases "nat n \<le> length s") (simp_all add: slice_def slice_bound_def Let_def min_def)

lemma context_entries_shape:
  "context_entries docs m =
     take (fit (m * 4) (entries docs)) (entries docs) @ truncated (m * 4) (entries docs)"
  using context_loop_shape[of "m * 4" docs "[]" 0] by (simp add: context_entries_def)

lemma context_loop_no_budget: "b \<le> 0 \<Longrightarrow> context_loop b docs ctx 0 = ctx"
proof (induction docs arbitrary: ctx)
  case Nil
  then show ?case by simp
next
  case (Cons d docs)
  show ?case
  proof (cases "doc_text d")
    case None
    with Cons show ?thesis by simp
  next
    case (Some t)
    from doc_context_length[of d t] Cons.prems
    have "\<not> int (length (doc_context d t)) \<le> b" by linarith
    with Some Cons.prems show ?thesis by (simp add: Let_def)
  qed
qed

section \<open>The character budget\<close>

text \<open>
  C3. For \<open>max_tokens > 0\<close> the string that retrieve_for_llm_context returns has at most
  \<open>max_tokens * 4\<close> characters. The list it joins is a prefix of the formatted entries,
  followed by at most one more element: the entry that comes next, cut short and ended by
  the three characters \<open>...\<close>. So a truncation touches the last appended entry only.
\<close>

theorem context_within_budget:
  "0 < max_tokens \<Longrightarrow>
   int (length (retrieve_for_llm_context docs max_tokens)) \<le> max_tokens * 4 \<and>
   (\<exists>k. k \<le> length (entries docs) \<and>
      (context_entries docs max_tokens = take k (entries docs) \<or>
       (\<exists>r. k < length (entries docs) \<and> r + 3 < length (entries docs ! k) \<and>
            context_entries docs max_tokens =
              take k (entries docs) @ [take r (entries docs ! k) @ ''...''])))"
proof -
  assume pos: "0 < max_tokens"
  let ?b = "max_tokens * 4" and ?es = "entries docs"
  let ?k = "fit ?b ?es"
  let ?rem = "?b - total_chars (take ?k ?es)"
  have shape: "context_entries docs max_tokens = take ?k ?es @ truncated ?b ?es"
    by (rule context_entries_shape)
  have fits: "total_chars (take ?k ?es) \<le> ?b"
    using pos by (intro fit_total) simp
  from truncated_cases[of ?b ?es] show ?thesis
  proof
    assume none: "truncated ?b ?es = []"
    with shape have c: "context_entries docs max_tokens = take ?k ?es" by simp
    with fits have "int (length (retrieve_for_llm_context docs max_tokens)) \<le> ?b"
      by (simp add: retrieve_for_llm_context_def length_concat_total)
    moreover from c fit_le[of ?b ?es] have "\<exists>k. k \<le> length ?es \<and>
      (context_entries docs max_tokens = take k ?es \<or>
       (\<exists>r. k < length ?es \<and> r + 3 < length (?es ! k) \<and>
            context_entries docs max_tokens = take k ?es @ [take r (?es ! k) @ ''...'']))"
      by blast
    ultimately show ?thesis by simp
  next
    assume some: "?k < length ?es \<and> 100 < ?rem \<and>
      truncated ?b ?es = [slice (?es ! ?k) 0 (?rem - 3) @ ''...'']"
    let ?r = "nat (?rem - 3)"
    from some have k: "?k < length ?es" and rem: "100 < ?rem" by simp_all
    from fit_stop[OF k] have longer: "?rem < int (length (?es ! ?k))" .
    from some rem have tr: "truncated ?b ?es = [take ?r (?es ! ?k) @ ''...'']"
      by (simp add: slice_prefix)
    with shape have c: "context_entries docs max_tokens = take ?k ?es @ [take ?r (?es ! ?k) @ ''...'']"
      by simp
    from rem longer have "int (length (take ?r (?es ! ?k) @ ''...'')) = ?rem"
      by simp
    then have "total_chars [take ?r (?es ! ?k) @ ''...''] = ?rem"
      by (simp only: total_simps)
    with c have "total_chars (context_entries docs max_tokens) = ?b"
      by (simp only: total_simps)
    then have "int (length (retrieve_for_llm_context docs max_tokens)) = ?b"
      by (simp only: retrieve_for_llm_context_def length_concat_total)
    moreover from rem longer have "?r + 3 < length (?es ! ?k)" by linarith
    with c k have "\<exists>k. k \<le> length ?es \<and>
      (context_entries docs max_tokens = take k ?es \<or>
       (\<exists>r. k < length ?es \<and> r + 3 < length (?es ! k) \<and>
            context_entries docs max_tokens = take k ?es @ [take r (?es ! k) @ ''...'']))"
      by (intro exI[of _ ?k] conjI disjI2 exI[of _ ?r]) simp_all
    ultimately show ?thesis by simp
  qed
qed

theorem context_within_budget_witness:
  "(0::int) < 30 \<and>
   int (length (retrieve_for_llm_context
      [\<lparr>doc_id = Some ''a'', doc_payload = None, doc_text = Some (replicate 150 CHR ''x'')\<rparr>] 30))
     \<le> 30 * 4"
  using context_within_budget[of 30
      "[\<lparr>doc_id = Some ''a'', doc_payload = None, doc_text = Some (replicate 150 CHR ''x'')\<rparr>]"]
  by simp

section \<open>A budget of no tokens\<close>

text \<open>
  C8, as stated: with \<open>max_tokens \<le> 0\<close> the packer raises InvalidArgument. It does not:
  with \<open>max_tokens = 0\<close> and one document it returns the empty string.
\<close>

theorem context_no_budget_not_rejected:
  "retrieve_for_llm_context [\<lparr>doc_id = Some ''a'', doc_payload = None, doc_text = Some ''hello''\<rparr>] 0 = ''''"
  by (simp add: retrieve_for_llm_context_def context_entries_def doc_context_def doc_source_def)

text \<open>
  C8, amended: retrieve_for_llm_context does not check \<open>max_tokens\<close>; with
  \<open>max_tokens \<le> 0\<close> no entry fits, nothing is appended, and it returns the empty string
  for every list of documents.
\<close>

theorem context_no_budget:
  "max_tokens \<le> 0 \<Longrightarrow> retrieve_for_llm_context docs max_tokens = ''''"
  using context_loop_no_budget[of "max_tokens * 4" docs "[]"]
  by (simp add: retrieve_for_llm_context_def context_entries_def)

theorem context_no_budget_witness:
  "(- 5::int) \<le> 0 \<and>
   retrieve_for_llm_context
     [\<lparr>doc_id = None, doc_payload = Some [''source'' \<mapsto> ''web''], doc_text = Some ''world''\<rparr>] (- 5) = ''''"
  using context_no_budget[of "- 5"
      "[\<lparr>doc_id = None, doc_payload = Some [''source'' \<mapsto> ''web''], doc_text = Some ''world''\<rparr>]"]
  by simp

section \<open>Rank order\<close>

text \<open>
  C9. The documents are packed in the order given. When the first \<open>k\<close> formatted entries
  (of the documents that have a text) fit the budget together, they are the first \<open>k\<close>
  elements of the list that is joined, so the output begins with them, verbatim and in
  their order. The output list is never longer than the list of entries, and its element
  at position \<open>j\<close> is the entry at position \<open>j\<close>, whole, or cut short when it is the last
  one: no entry is moved and none is passed over for a later one.
\<close>

theorem context_rank_order:
  assumes "k \<le> length (entries docs)"
    and "total_chars (take k (entries docs)) \<le> max_tokens * 4"
  shows "take k (context_entries docs max_tokens) = take k (entries docs) \<and>
         (\<exists>rest. retrieve_for_llm_context docs max_tokens = concat (take k (entries docs)) @ rest) \<and>
         length (context_entries docs max_tokens) \<le> length (entries docs) \<and>
         (\<forall>j. j < length (context_entries docs max_tokens) \<longrightarrow>
            context_entries docs max_tokens ! j = entries docs ! j \<or>
            (Suc j = length (context_entries docs max_tokens) \<and>
             (\<exists>r. context_entries docs max_tokens ! j = take r (entries docs ! j) @ ''...'')))"
proof -
  let ?b = "max_tokens * 4" and ?es = "entries docs" and ?c = "context_entries docs max_tokens"
  let ?k = "fit ?b ?es"
  let ?rem = "?b - total_chars (take ?k ?es)"
  have shape: "?c = take ?k ?es @ truncated ?b ?es"
    by (rule context_entries_shape)
  have kk: "k \<le> ?k" using assms by (rule fit_greatest)
  have kl: "?k \<le> length ?es" by (rule fit_le)
  from kk kl have 1: "take k ?c = take k ?es"
    by (simp add: shape min_absorb2)
  have "?c = take k ?c @ drop k ?c" by simp
  with 1 have "concat ?c = concat (take k ?es) @ concat (drop k ?c)"
    by (metis concat_append)
  then have 2: "\<exists>rest. retrieve_for_llm_context docs max_tokens = concat (take k ?es) @ rest"
    by (auto simp: retrieve_for_llm_context_def)
  have 3: "length ?c \<le> length ?es"
    using truncated_cases[of ?b ?es] kl by (auto simp: shape)
  have 4: "?c ! j = ?es ! j \<or> (Suc j = length ?c \<and> (\<exists>r. ?c ! j = take r (?es ! j) @ ''...''))"
    if j: "j < length ?c" for j
  proof (cases "j < ?k")
    case True
    with kl show ?thesis by (simp add: shape nth_append)
  next
    case False
    with j kl truncated_cases[of ?b ?es]
    have tr: "truncated ?b ?es = [slice (?es ! ?k) 0 (?rem - 3) @ ''...'']"
      and rem: "100 < ?rem" and jk: "j = ?k"
      by (auto simp: shape)
    from rem have "slice (?es ! ?k) 0 (?rem - 3) = take (nat (?rem - 3)) (?es ! ?k)"
      by (simp add: slice_prefix)
    with tr jk kl show ?thesis
      by (auto simp: shape nth_append)
  qed
  from 1 2 3 4 show ?thesis by blast
qed

theorem context_rank_order_witness:
  "(2::nat) \<le> length (entries
       [\<lparr>doc_id = Some ''a'', doc_payload = None, doc_text = Some ''hello''\<rparr>,
        \<lparr>doc_id = Some ''b'', doc_payload = None, doc_text = Some ''world''\<rparr>])
   \<and> total_chars (take 2 (entries
       [\<lparr>doc_id = Some ''a'', doc_payload = None, doc_text = Some ''hello''\<rparr>,
        \<lparr>doc_id = Some ''b'', doc_payload = None, doc_text = Some ''world''\<rparr>])) \<le> 1000 * 4
   \<and> take 2 (context_entries
       [\<lparr>doc_id = Some ''a'', doc_payload = None, doc_text = Some ''hello''\<rparr>,
        \<lparr>doc_id = Some ''b'', doc_payload = None, doc_text = Some ''world''\<rparr>] 1000)
      = take 2 (entries
       [\<lparr>doc_id = Some ''a'', doc_payload = None, doc_text = Some ''hello''\<rparr>,
        \<lparr>doc_id = Some ''b'', doc_payload = None, doc_text = Some ''world''\<rparr>])"
proof -
  have 1: "(2::nat) \<le> length (entries
       [\<lparr>doc_id = Some ''a'', doc_payload = None, doc_text = Some ''hello''\<rparr>,
        \<lparr>doc_id = Some ''b'', doc_payload = None, doc_text = Some ''world''\<rparr>])"
    by simp
  have 2: "total_chars (take 2 (entries
       [\<lparr>doc_id = Some ''a'', doc_payload = None, doc_text = Some ''hello''\<rparr>,
        \<lparr>doc_id = Some ''b'', doc_payload = None, doc_text = Some ''world''\<rparr>])) \<le> 1000 * 4"
    by (simp add: total_chars_def doc_context_def doc_source_def)
  from context_rank_order[OF 1 2] 1 2 show ?thesis by blast
qed

end
